theory Spec2Isabelle
  imports
    Main
    "HOL-Library.Word"
    "HOL-Library.Char_ord"
    "HOL-Library.List_Lexorder"
    "HOL-Library.Multiset"
begin

section \<open>PBD::EventLoop (libs/pbd/event\_loop.cc)\<close>

text \<open>
  A shallow embedding of the static members of \<open>PBD::EventLoop\<close>: the per-thread
  event-loop pointer, \<open>invalidate_request\<close>, the list of request buffer suppliers and
  the table of pre-registered request buffers.

  Pointers are addresses (\<open>addr\<close>). A pointer that the code tests against or assigns
  \<open>0\<close> is an \<open>addr option\<close> with \<open>None\<close> for the null pointer. Objects reached
  through pointers live in explicit stores (maps from addresses to objects), so that
  two pointers to one object alias in the model as they do in the program.
\<close>

type_synonym addr = nat
type_synonym pthread_t = nat

subsection \<open>Invalidation records and request objects\<close>

text \<open>
  Modelled from the spec: the declarations of \<open>BaseRequestObject\<close> and
  \<open>InvalidationRecord\<close> (in pbd/event\_loop.h) are missing. By the spec and by the
  use of the fields in \<open>invalidate_request\<close>, a \<open>BaseRequestObject\<close> has the fields
  \<open>valid\<close> and \<open>invalidation\<close> (a pointer to the \<open>InvalidationRecord\<close> it belongs
  to, or 0), and an \<open>InvalidationRecord\<close> has the list \<open>requests\<close> of pointers to
  request objects and the pointer \<open>event_loop\<close>. Only these fields are read or
  written by \<open>invalidate_request\<close>.
\<close>

record BaseRequestObject =
  valid :: bool
  invalidation :: "addr option"

record InvalidationRecord =
  requests :: "addr list"
  event_loop :: "addr option"

text \<open>
  The effects of \<open>invalidate_request\<close> in the order in which the calling thread performs
  them. The mutex returned by \<open>ir->event_loop->slot_invalidation_mutex()\<close> is named by
  the address of its event loop. \<open>Glib::Threads::Mutex::Lock\<close> locks in its constructor
  and unlocks in its destructor, that is where the enclosing block ends.
\<close>

datatype inv_event =
    MutexLock addr
  | Invalidated addr
  | DeleteRecord addr
  | MutexUnlock addr

text \<open>
  The objects that \<open>invalidate_request\<close> reaches through pointers: the request
  objects, the invalidation records, and the event loops that are alive (the set of
  their addresses; of an event loop only its mutex is used).
\<close>

record object_store =
  request_objects :: "addr \<rightharpoonup> BaseRequestObject"
  invalidation_records :: "addr \<rightharpoonup> InvalidationRecord"
  event_loop_objects :: "addr set"
  inv_events :: "inv_event list"

text \<open>
  Dereferencing a pointer that addresses no live object is undefined in C++; the model
  stops with \<open>BadPointer\<close> there. This holds for the record that \<open>data\<close> points to,
  for the event loop whose \<open>slot_invalidation_mutex()\<close> is called through
  \<open>ir->event_loop\<close> (line 85), and for every request object of the list.
\<close>

datatype error = BadPointer addr

text \<open>
  The body of the \<open>for\<close> loop over \<open>ir->requests\<close> (lines 86 to 89):
  \<open>(*i)->valid = false; (*i)->invalidation = 0;\<close>
\<close>

fun invalidate_requests :: "addr list \<Rightarrow> object_store \<Rightarrow> error + object_store" where
  "invalidate_requests [] st = Inr st"
| "invalidate_requests (i # rest) st =
     (case request_objects st i of
        None \<Rightarrow> Inl (BadPointer i)
      | Some req \<Rightarrow>
          invalidate_requests rest
            (st\<lparr>request_objects :=
                  (request_objects st)(i \<mapsto> req\<lparr>valid := False, invalidation := None\<rparr>),
                inv_events := inv_events st @ [Invalidated i]\<rparr>))"

text \<open>
  \<open>EventLoop::invalidate_request (void* data)\<close>. The lock \<open>lm\<close>, the loop and
  \<open>delete ir\<close> are all inside the block guarded by \<open>if (ir->event_loop)\<close>; the lock is
  released when that block is left, after \<open>delete ir\<close>. The function always returns 0,
  so only the store is returned.
\<close>

definition invalidate_request :: "addr \<Rightarrow> object_store \<Rightarrow> error + object_store" where
  "invalidate_request data st =
     (case invalidation_records st data of
        None \<Rightarrow> Inl (BadPointer data)
      | Some ir \<Rightarrow>
          (case event_loop ir of
             None \<Rightarrow> Inr st
           | Some el \<Rightarrow>
               if el \<notin> event_loop_objects st then Inl (BadPointer el)
               else
                 (case invalidate_requests (requests ir)
                         (st\<lparr>inv_events := inv_events st @ [MutexLock el]\<rparr>) of
                    Inl e \<Rightarrow> Inl e
                  | Inr st' \<Rightarrow>
                      Inr (st'\<lparr>invalidation_records := (invalidation_records st')(data := None),
                                inv_events :=
                                  inv_events st' @ [DeleteRecord data, MutexUnlock el]\<rparr>))))"

text \<open>What the loop does to one request object.\<close>

definition invalidated :: "BaseRequestObject \<Rightarrow> BaseRequestObject" where
  "invalidated req = req\<lparr>valid := False, invalidation := None\<rparr>"

text \<open>\<open>a\<close> occurs in the event list, and \<open>b\<close> occurs after its first occurrence.\<close>

definition occurs_before :: "'e \<Rightarrow> 'e \<Rightarrow> 'e list \<Rightarrow> bool" where
  "occurs_before a b evs = (b \<in> set (dropWhile (\<lambda>x. x \<noteq> a) evs))"

text \<open>
  The effects that one call of \<open>invalidate_request\<close> adds to the event list
  (none when the call stops at a bad pointer).
\<close>

definition invalidate_request_events :: "addr \<Rightarrow> object_store \<Rightarrow> inv_event list" where
  "invalidate_request_events data st =
     (case invalidate_request data st of
        Inl e \<Rightarrow> []
      | Inr st' \<Rightarrow> drop (length (inv_events st)) (inv_events st'))"

text \<open>
  A store used for the concrete evaluations below: the record at address 1 belongs to
  the event loop at address 7 and lists the requests at 10 and 11; the record at
  address 2 has no event loop and lists the request at 12; the record at address 3
  belongs to the event loop at 7 and lists no request; the record at address 4 points
  to an event loop at address 9 that is not alive. The only live event loop is at 7.
\<close>

definition example_store :: object_store where
  "example_store =
     \<lparr>request_objects =
        [10 \<mapsto> \<lparr>valid = True, invalidation = Some 1\<rparr>,
         11 \<mapsto> \<lparr>valid = True, invalidation = Some 1\<rparr>,
         12 \<mapsto> \<lparr>valid = True, invalidation = Some 2\<rparr>],
      invalidation_records =
        [1 \<mapsto> \<lparr>requests = [10, 11], event_loop = Some 7\<rparr>,
         2 \<mapsto> \<lparr>requests = [12], event_loop = None\<rparr>,
         3 \<mapsto> \<lparr>requests = [], event_loop = Some 7\<rparr>,
         4 \<mapsto> \<lparr>requests = [], event_loop = Some 9\<rparr>],
      event_loop_objects = {7},
      inv_events = []\<rparr>"

subsection \<open>The per-thread event loop pointer\<close>

text \<open>
  \<open>thread_event_loop\<close> is a \<open>Glib::Threads::Private<EventLoop>\<close>, a class of glibmm:
  one pointer slot for each thread, null until the thread sets it. \<open>get\<close> reads the
  slot of the calling thread and \<open>set\<close> overwrites it (\<open>g_private_set\<close>, which does
  not call the destroy notifier on the old value). The notifier given to the
  constructor is called on a non-null slot when its thread exits. The store also
  holds the set of addresses of the \<open>EventLoop\<close> objects that are allocated.
\<close>

record thread_local_store =
  thread_event_loop :: "pthread_t \<Rightarrow> addr option"
  live_event_loops :: "addr set"

text \<open>\<open>static void do_not_delete_the_loop_pointer (void*) { }\<close>\<close>

definition do_not_delete_the_loop_pointer :: "addr \<Rightarrow> addr set \<Rightarrow> addr set" where
  "do_not_delete_the_loop_pointer p live = live"

text \<open>No thread has set its slot yet.\<close>

definition initial_thread_local_store :: "addr set \<Rightarrow> thread_local_store" where
  "initial_thread_local_store live =
     \<lparr>thread_event_loop = (\<lambda>t. None), live_event_loops = live\<rparr>"

text \<open>
  \<open>EventLoop::get_event_loop_for_thread\<close> and \<open>EventLoop::set_event_loop_for_thread\<close>,
  called by the thread \<open>self\<close>.
\<close>

definition get_event_loop_for_thread :: "pthread_t \<Rightarrow> thread_local_store \<Rightarrow> addr option" where
  "get_event_loop_for_thread self tls = thread_event_loop tls self"

definition set_event_loop_for_thread ::
  "pthread_t \<Rightarrow> addr option \<Rightarrow> thread_local_store \<Rightarrow> thread_local_store" where
  "set_event_loop_for_thread self loop tls =
     tls\<lparr>thread_event_loop := (thread_event_loop tls)(self := loop)\<rparr>"

text \<open>The thread \<open>self\<close> exits: the notifier of \<open>thread_event_loop\<close> runs on its slot.\<close>

definition thread_exit :: "pthread_t \<Rightarrow> thread_local_store \<Rightarrow> thread_local_store" where
  "thread_exit self tls =
     (case thread_event_loop tls self of
        None \<Rightarrow> tls
      | Some p \<Rightarrow>
          tls\<lparr>thread_event_loop := (thread_event_loop tls)(self := None),
              live_event_loops := do_not_delete_the_loop_pointer p (live_event_loops tls)\<rparr>)"

text \<open>
  A history of calls of \<open>set_event_loop_for_thread\<close>, each with the calling thread and
  its argument, in the order in which they happen.
\<close>

fun set_calls :: "(pthread_t \<times> addr option) list \<Rightarrow> thread_local_store \<Rightarrow> thread_local_store" where
  "set_calls [] tls = tls"
| "set_calls (call # calls) tls =
     set_calls calls (set_event_loop_for_thread (fst call) (snd call) tls)"

subsection \<open>Request buffer suppliers and pre-registered request buffers\<close>

text \<open>
  A factory is a C function pointer \<open>void* (*)(uint32_t)\<close> given by the caller. It
  allocates a request buffer and sets a thread-local variable of its caller, so it is
  a function on a state \<open>'w\<close> of its own, outside the members of \<open>EventLoop\<close> (a
  factory does not call back into \<open>EventLoop\<close>): it returns the address of the buffer
  and the new state. A null function pointer is \<open>None\<close>.
\<close>

type_synonym 'w factory = "32 word \<Rightarrow> 'w \<Rightarrow> addr \<times> 'w"

text \<open>
  Modelled from the spec: the declarations of \<open>RequestBufferSupplier\<close> and
  \<open>ThreadBufferMapping\<close> (in pbd/event\_loop.h) are missing. By the spec and by the
  use of the fields in the code, a supplier has a \<open>name\<close> and a \<open>factory\<close>, and a
  mapping has the id of the emitting thread, the name of the target thread and the
  pointer to the request buffer.
\<close>

record 'w RequestBufferSupplier =
  name :: string
  factory :: "'w factory option"

record ThreadBufferMapping =
  emitting_thread :: pthread_t
  target_thread_name :: string
  request_buffer :: addr

text \<open>
  The two kinds of lock on \<open>thread_buffer_requests_lock\<close>, and the effects of the
  member functions on the shared containers in the order in which the calling thread
  performs them. Each lock object is released where its block ends.
\<close>

datatype lock_kind = ReaderLock | WriterLock

datatype reg_event =
    Acquire lock_kind
  | Release lock_kind
  | SupplierPushBack string
  | TableAssign string

text \<open>
  Modelled from the spec: the declaration of the type \<open>ThreadRequestBufferList\<close> of
  \<open>thread_buffer_requests\<close> (in pbd/event\_loop.h) is missing; the spec calls it a
  mapping from the composite key to the most recent \<open>ThreadBufferMapping\<close>, and the code
  uses it as a \<open>std::map\<close> with string keys (\<open>operator[]\<close>, iteration over pairs,
  \<open>x->second\<close>). It is the list of its entries in the order of iteration, which is
  the ascending order of the keys (bytes compared as unsigned values).
  \<open>request_buffer_suppliers\<close> is a sequence with \<open>push_back\<close>.
\<close>

record 'w registry =
  thread_buffer_requests :: "(string \<times> ThreadBufferMapping) list"
  request_buffer_suppliers :: "'w RequestBufferSupplier list"
  world :: 'w
  reg_events :: "reg_event list"

text \<open>The static containers are empty when the program starts.\<close>

definition initial_registry :: "'w \<Rightarrow> 'w registry" where
  "initial_registry w =
     \<lparr>thread_buffer_requests = [], request_buffer_suppliers = [], world = w,
      reg_events = []\<rparr>"

text \<open>
  \<open>table[key] = mapping\<close> on a \<open>std::map\<close>: the entry with this key is overwritten,
  and a new entry is inserted at its place in the order of the keys when there is none.
\<close>

fun map_subscript_assign ::
  "string \<Rightarrow> 'v \<Rightarrow> (string \<times> 'v) list \<Rightarrow> (string \<times> 'v) list" where
  "map_subscript_assign key v [] = [(key, v)]"
| "map_subscript_assign key v (entry # entries) =
     (if fst entry = key then (key, v) # entries
      else if key < fst entry then (key, v) # entry # entries
      else entry # map_subscript_assign key v entries)"

text \<open>The invariant of a \<open>std::map\<close>: the keys are strictly ascending.\<close>

definition ascending_keys :: "(string \<times> 'v) list \<Rightarrow> bool" where
  "ascending_keys entries = sorted_wrt (<) (map fst entries)"

text \<open>
  The loop of \<open>EventLoop::get_request_buffers_for_target_thread\<close> (lines 102 to 108),
  with \<open>ret\<close> as accumulator.
\<close>

fun collect_request_buffers ::
  "string \<Rightarrow> (string \<times> ThreadBufferMapping) list \<Rightarrow> ThreadBufferMapping list
     \<Rightarrow> ThreadBufferMapping list" where
  "collect_request_buffers target_thread [] ret = ret"
| "collect_request_buffers target_thread (x # rest) ret =
     (if target_thread_name (snd x) = target_thread
      then collect_request_buffers target_thread rest (ret @ [snd x])
      else collect_request_buffers target_thread rest ret)"

definition get_request_buffers_for_target_thread ::
  "string \<Rightarrow> 'w registry \<Rightarrow> ThreadBufferMapping list \<times> 'w registry" where
  "get_request_buffers_for_target_thread target_thread s =
     (let s1 = s\<lparr>reg_events := reg_events s @ [Acquire WriterLock]\<rparr>;
          ret = collect_request_buffers target_thread (thread_buffer_requests s1) []
      in (ret, s1\<lparr>reg_events := reg_events s1 @ [Release WriterLock]\<rparr>))"

text \<open>\<open>EventLoop::register_request_buffer_factory\<close>\<close>

definition register_request_buffer_factory ::
  "string \<Rightarrow> 'w factory option \<Rightarrow> 'w registry \<Rightarrow> 'w registry" where
  "register_request_buffer_factory target_thread_name' factory' s =
     (let trs = \<lparr>name = target_thread_name', factory = factory'\<rparr>
      in s\<lparr>request_buffer_suppliers := request_buffer_suppliers s @ [trs],
           reg_events := reg_events s
             @ [Acquire WriterLock, SupplierPushBack target_thread_name', Release WriterLock]\<rparr>)"

text \<open>
  One iteration of the loop of \<open>EventLoop::pre_register\<close> (lines 147 to 188), for the
  supplier \<open>trs\<close>, called by the thread \<open>self\<close> (the value of \<open>pthread_self()\<close>).
  The variable \<open>mapping\<close> is declared before the loop, but each of its three fields is
  assigned in every iteration that stores it.
\<close>

definition pre_register_supplier ::
  "string \<Rightarrow> 32 word \<Rightarrow> pthread_t \<Rightarrow> 'w RequestBufferSupplier \<Rightarrow> 'w registry
     \<Rightarrow> 'w registry" where
  "pre_register_supplier emitting_thread_name num_requests self trs s =
     (case factory trs of
        None \<Rightarrow> s
      | Some f \<Rightarrow>
          if emitting_thread_name = name trs then s
          else
            (let (buffer, w) = f num_requests (world s);
                 mapping = \<lparr>emitting_thread = self, target_thread_name = name trs,
                            request_buffer = buffer\<rparr>;
                 key = emitting_thread_name @ ''/'' @ target_thread_name mapping
             in s\<lparr>thread_buffer_requests :=
                    map_subscript_assign key mapping (thread_buffer_requests s),
                  world := w,
                  reg_events := reg_events s @ [TableAssign key]\<rparr>))"

text \<open>
  The loop over the suppliers (line 145). The body writes neither
  \<open>request_buffer_suppliers\<close> nor the lock, so the loop runs over the suppliers as they
  are when it starts.
\<close>

fun pre_register_suppliers ::
  "string \<Rightarrow> 32 word \<Rightarrow> pthread_t \<Rightarrow> 'w RequestBufferSupplier list \<Rightarrow> 'w registry
     \<Rightarrow> 'w registry" where
  "pre_register_suppliers emitting_thread_name num_requests self [] s = s"
| "pre_register_suppliers emitting_thread_name num_requests self (trs # rest) s =
     pre_register_suppliers emitting_thread_name num_requests self rest
       (pre_register_supplier emitting_thread_name num_requests self trs s)"

text \<open>\<open>EventLoop::pre_register\<close>; the lock taken at line 143 is a \<open>ReaderLock\<close>.\<close>

definition pre_register :: "string \<Rightarrow> 32 word \<Rightarrow> pthread_t \<Rightarrow> 'w registry \<Rightarrow> 'w registry" where
  "pre_register emitting_thread_name num_requests self s =
     (let s1 = s\<lparr>reg_events := reg_events s @ [Acquire ReaderLock]\<rparr>;
          s2 = pre_register_suppliers emitting_thread_name num_requests self
                 (request_buffer_suppliers s1) s1
      in s2\<lparr>reg_events := reg_events s2 @ [Release ReaderLock]\<rparr>)"

text \<open>The effects that one call of \<open>pre_register\<close> adds to the event list.\<close>

definition pre_register_events ::
  "string \<Rightarrow> 32 word \<Rightarrow> pthread_t \<Rightarrow> 'w registry \<Rightarrow> reg_event list" where
  "pre_register_events emitting_thread_name num_requests self s =
     drop (length (reg_events s))
       (reg_events (pre_register emitting_thread_name num_requests self s))"

text \<open>
  Every assignment to the table in the event list happens while the calling thread
  holds a lock of kind \<open>k\<close>; \<open>held\<close> is the lock it holds at the start of the list.
\<close>

fun assigns_while_holding :: "lock_kind \<Rightarrow> lock_kind option \<Rightarrow> reg_event list \<Rightarrow> bool" where
  "assigns_while_holding k held [] = True"
| "assigns_while_holding k held (Acquire k' # evs) = assigns_while_holding k (Some k') evs"
| "assigns_while_holding k held (Release k' # evs) = assigns_while_holding k None evs"
| "assigns_while_holding k held (SupplierPushBack n # evs) = assigns_while_holding k held evs"
| "assigns_while_holding k held (TableAssign key # evs) =
     (held = Some k \<and> assigns_while_holding k held evs)"

text \<open>The keys assigned in an event list, in order.\<close>

fun assigned_keys :: "reg_event list \<Rightarrow> string list" where
  "assigned_keys [] = []"
| "assigned_keys (TableAssign key # evs) = key # assigned_keys evs"
| "assigned_keys (ev # evs) = assigned_keys evs"

text \<open>
  The suppliers that \<open>pre_register\<close> does not skip: those with a factory whose name
  differs from the name of the emitting thread.
\<close>

definition served :: "string \<Rightarrow> 'w RequestBufferSupplier \<Rightarrow> bool" where
  "served emitting_thread_name trs =
     (factory trs \<noteq> None \<and> name trs \<noteq> emitting_thread_name)"

text \<open>
  Factories for the concrete evaluations below. Their state is the number of buffers
  allocated so far; each call returns a new address.
\<close>

definition ui_factory :: "nat factory" where
  "ui_factory num_requests w = (100 + w, Suc w)"

definition worker_factory :: "nat factory" where
  "worker_factory num_requests w = (200 + w, Suc w)"

definition example_registry :: "nat registry" where
  "example_registry =
     register_request_buffer_factory ''audio'' None
       (register_request_buffer_factory ''workerA'' (Some worker_factory)
          (register_request_buffer_factory ''ui'' (Some ui_factory)
             (initial_registry 0)))"





text \<open>
  A history of calls of the three static member functions on the shared containers, in
  the order in which they happen, and the registry it leaves. \<open>plain_emitter\<close> holds
  of a call that is not a \<open>pre_register\<close> with a slash in the name of the emitting
  thread.
\<close>

datatype 'w call =
    RegisterFactory string "'w factory option"
  | PreRegister string "32 word" pthread_t
  | GetRequestBuffers string






section \<open>Properties of \<open>invalidate_request\<close>\<close>

lemma invalidated_twice: "invalidated (invalidated req) = invalidated req"
  by (simp add: invalidated_def)

lemma invalidated_eq:
  "invalidated = (\<lambda>req. req\<lparr>valid := False, invalidation := None\<rparr>)"
  by (rule ext) (simp add: invalidated_def)

text \<open>
  The loop, when every pointer of the list addresses a live request object: the
  objects of the list are invalidated (an object listed twice as well), all others
  are as before.
\<close>

lemma invalidate_requests_result:
  "set ptrs \<subseteq> dom (request_objects st) \<Longrightarrow>
   invalidate_requests ptrs st =
     Inr (st\<lparr>request_objects :=
               (\<lambda>a. if a \<in> set ptrs then map_option invalidated (request_objects st a)
                    else request_objects st a),
             inv_events := inv_events st @ map Invalidated ptrs\<rparr>)"
proof (induction ptrs arbitrary: st)
  case Nil
  then show ?case by simp
next
  case (Cons i rest)
  from Cons.prems obtain req where req: "request_objects st i = Some req"
    by auto
  let ?st1 = "st\<lparr>request_objects := (request_objects st)(i \<mapsto> invalidated req),
                  inv_events := inv_events st @ [Invalidated i]\<rparr>"
  have sub: "set rest \<subseteq> dom (request_objects ?st1)"
    using Cons.prems by auto
  have "invalidate_requests (i # rest) st = invalidate_requests rest ?st1"
    by (simp add: req invalidated_def)
  also have "\<dots> = Inr (?st1\<lparr>request_objects :=
               (\<lambda>a. if a \<in> set rest then map_option invalidated (request_objects ?st1 a)
                    else request_objects ?st1 a),
             inv_events := inv_events ?st1 @ map Invalidated rest\<rparr>)"
    by (rule Cons.IH [OF sub])
  also have "\<dots> = Inr (st\<lparr>request_objects :=
               (\<lambda>a. if a \<in> set (i # rest) then map_option invalidated (request_objects st a)
                    else request_objects st a),
             inv_events := inv_events st @ map Invalidated (i # rest)\<rparr>)"
    by (auto simp: req invalidated_twice fun_eq_iff)
  finally show ?case .
qed

lemma invalidate_request_with_loop:
  assumes "invalidation_records st data = Some ir"
    and "event_loop ir = Some el"
    and "el \<in> event_loop_objects st"
    and "set (requests ir) \<subseteq> dom (request_objects st)"
  shows "invalidate_request data st =
     Inr (st\<lparr>request_objects :=
               (\<lambda>a. if a \<in> set (requests ir)
                    then map_option invalidated (request_objects st a)
                    else request_objects st a),
             invalidation_records := (invalidation_records st)(data := None),
             inv_events := inv_events st @ [MutexLock el] @ map Invalidated (requests ir)
               @ [DeleteRecord data, MutexUnlock el]\<rparr>)"
proof -
  let ?st0 = "st\<lparr>inv_events := inv_events st @ [MutexLock el]\<rparr>"
  have "set (requests ir) \<subseteq> dom (request_objects ?st0)"
    using assms(4) by simp
  from invalidate_requests_result [OF this] show ?thesis
    using assms(1,2,3) by (simp add: invalidate_request_def cong: if_cong)
qed

lemma count_list_Invalidated:
  "count_list (map Invalidated ptrs) (DeleteRecord data) = 0"
  by (induction ptrs) simp_all

lemma dropWhile_Invalidated_delete:
  "dropWhile (\<lambda>x. x \<noteq> DeleteRecord data) (map Invalidated ptrs @ evs) =
   dropWhile (\<lambda>x. x \<noteq> DeleteRecord data) evs"
  by (induction ptrs) simp_all

lemma dropWhile_Invalidated_unlock:
  "dropWhile (\<lambda>x. x \<noteq> MutexUnlock el) (map Invalidated ptrs @ evs) =
   dropWhile (\<lambda>x. x \<noteq> MutexUnlock el) evs"
  by (induction ptrs) simp_all

text \<open>
  A record whose \<open>event_loop\<close> points to no live event loop: the call through the
  pointer at line 85 is undefined, and the model stops there.
\<close>

lemma invalidate_request_dangling_loop:
  "invalidation_records st data = Some ir \<Longrightarrow> event_loop ir = Some el \<Longrightarrow>
   el \<notin> event_loop_objects st \<Longrightarrow> invalidate_request data st = Inl (BadPointer el)"
  by (simp add: invalidate_request_def)

lemma invalidate_request_dangling_loop_example:
  "invalidate_request 4 example_store = Inl (BadPointer 9)"
  by (simp add: invalidate_request_def example_store_def)

text \<open>
  Claim C1. Let \<open>data\<close> point to a live invalidation record whose \<open>event_loop\<close> is set
  and points to a live event loop, and whose list \<open>requests\<close> holds pointers to live
  request objects (any number of them, also none). Then \<open>invalidate_request\<close> returns
  normally; afterwards every request object of the list has \<open>valid = false\<close> and
  \<open>invalidation = 0\<close>, every other request object is as it was, and the record is no
  longer allocated. The call first invalidates the requests of the list, in the order
  of the list, and then deletes the record: its effects are the lock, the
  invalidations, one delete of the record and the unlock, in this order, so the
  record is deleted exactly once and after the last invalidation.
\<close>

theorem invalidate_request_live_loop:
  assumes "invalidation_records st data = Some ir"
    and "event_loop ir = Some el"
    and "el \<in> event_loop_objects st"
    and "set (requests ir) \<subseteq> dom (request_objects st)"
  shows "\<exists>st'. invalidate_request data st = Inr st'
      \<and> (\<forall>a. request_objects st' a =
             (if a \<in> set (requests ir)
              then map_option (\<lambda>req. req\<lparr>valid := False, invalidation := None\<rparr>)
                     (request_objects st a)
              else request_objects st a))
      \<and> invalidation_records st' = (invalidation_records st)(data := None)
      \<and> event_loop_objects st' = event_loop_objects st
      \<and> invalidate_request_events data st =
           [MutexLock el] @ map Invalidated (requests ir) @ [DeleteRecord data, MutexUnlock el]
      \<and> count_list (invalidate_request_events data st) (DeleteRecord data) = 1"
  using invalidate_request_with_loop [OF assms]
  by (simp add: invalidate_request_events_def count_list_Invalidated invalidated_eq)

text \<open>
  The theorem at the record at address 1 of \<open>example_store\<close>: the requests at 10 and
  11 are invalidated, the request at 12 (of another record) is not, the record at 1
  is freed after the two invalidations and the record at 2 stays.
\<close>

theorem invalidate_request_live_loop_witness:
  "invalidation_records example_store 1 = Some \<lparr>requests = [10, 11], event_loop = Some 7\<rparr>
   \<and> 7 \<in> event_loop_objects example_store
   \<and> set [10, 11] \<subseteq> dom (request_objects example_store)
   \<and> (\<exists>st'. invalidate_request 1 example_store = Inr st'
        \<and> request_objects st' 10 = Some \<lparr>valid = False, invalidation = None\<rparr>
        \<and> request_objects st' 11 = Some \<lparr>valid = False, invalidation = None\<rparr>
        \<and> request_objects st' 12 = Some \<lparr>valid = True, invalidation = Some 2\<rparr>
        \<and> invalidation_records st' 1 = None
        \<and> invalidation_records st' 2 = invalidation_records example_store 2)
   \<and> invalidate_request_events 1 example_store =
       [MutexLock 7, Invalidated 10, Invalidated 11, DeleteRecord 1, MutexUnlock 7]"
proof -
  have r: "invalidation_records example_store 1
             = Some \<lparr>requests = [10, 11], event_loop = Some 7\<rparr>"
    by (simp add: example_store_def)
  have l: "event_loop \<lparr>requests = [10, 11], event_loop = Some 7\<rparr> = Some 7"
    by simp
  have v: "7 \<in> event_loop_objects example_store"
    by (simp add: example_store_def)
  have d: "set (requests \<lparr>requests = [10, 11], event_loop = Some 7\<rparr>)
             \<subseteq> dom (request_objects example_store)"
    by (simp add: example_store_def)
  from invalidate_request_live_loop [OF r l v d] obtain st' where
    "invalidate_request 1 example_store = Inr st'"
    "\<forall>a. request_objects st' a =
             (if a \<in> set (requests \<lparr>requests = [10, 11], event_loop = Some 7\<rparr>)
              then map_option (\<lambda>req. req\<lparr>valid := False, invalidation := None\<rparr>)
                     (request_objects example_store a)
              else request_objects example_store a)"
    "invalidation_records st' = (invalidation_records example_store)(1 := None)"
    "invalidate_request_events 1 example_store =
       [MutexLock 7] @ map Invalidated (requests \<lparr>requests = [10, 11], event_loop = Some 7\<rparr>)
         @ [DeleteRecord 1, MutexUnlock 7]"
    by blast
  then show ?thesis
    using r v d by (simp add: example_store_def)
qed

text \<open>
  Claim C2 says that a record without event loop is still freed. The record at
  address 2 of \<open>example_store\<close> has no event loop: the call returns the store as it
  was, the record is still allocated, and the call has deleted nothing. The record
  is freed nowhere else, while the branch for a record with an event loop deletes it:
  on this path the code leaks the record.
\<close>

theorem invalidate_request_null_loop_keeps_record:
  "invalidate_request 2 example_store = Inr example_store
   \<and> invalidation_records example_store 2 = Some \<lparr>requests = [12], event_loop = None\<rparr>
   \<and> count_list (invalidate_request_events 2 example_store) (DeleteRecord 2) = 0"
  by (simp add: invalidate_request_events_def invalidate_request_def example_store_def)

text \<open>
  Claim C5 says that the mutex is released before the record is destroyed. For the
  record at address 1 of \<open>example_store\<close> the unlock of the mutex of event loop 7
  does not come before the delete of the record.
\<close>

theorem invalidate_request_unlock_first_counterexample:
  "\<not> occurs_before (MutexUnlock 7) (DeleteRecord 1) (invalidate_request_events 1 example_store)"
  by (simp add: occurs_before_def invalidate_request_events_def invalidate_request_def
      example_store_def)

text \<open>
  Claim C5, amended. For a live record whose \<open>event_loop\<close> points to a live event
  loop (and whose requests are live) the call locks the mutex of the event loop,
  invalidates the requests in the order of the list, deletes the record and then
  unlocks the mutex: the record is destroyed while the mutex is held, and the mutex
  is released after the delete, not before.
\<close>

theorem invalidate_request_deletes_under_mutex:
  assumes "invalidation_records st data = Some ir"
    and "event_loop ir = Some el"
    and "el \<in> event_loop_objects st"
    and "set (requests ir) \<subseteq> dom (request_objects st)"
  shows "invalidate_request_events data st =
           [MutexLock el] @ map Invalidated (requests ir) @ [DeleteRecord data, MutexUnlock el]
      \<and> occurs_before (DeleteRecord data) (MutexUnlock el) (invalidate_request_events data st)
      \<and> \<not> occurs_before (MutexUnlock el) (DeleteRecord data) (invalidate_request_events data st)"
  using invalidate_request_with_loop [OF assms]
  by (simp add: invalidate_request_events_def occurs_before_def dropWhile_Invalidated_delete
      dropWhile_Invalidated_unlock)

theorem invalidate_request_deletes_under_mutex_witness:
  "invalidation_records example_store 1 = Some \<lparr>requests = [10, 11], event_loop = Some 7\<rparr>
   \<and> 7 \<in> event_loop_objects example_store
   \<and> set [10, 11] \<subseteq> dom (request_objects example_store)
   \<and> invalidate_request_events 1 example_store =
       [MutexLock 7, Invalidated 10, Invalidated 11, DeleteRecord 1, MutexUnlock 7]"
proof -
  have r: "invalidation_records example_store 1
             = Some \<lparr>requests = [10, 11], event_loop = Some 7\<rparr>"
    by (simp add: example_store_def)
  have l: "event_loop \<lparr>requests = [10, 11], event_loop = Some 7\<rparr> = Some 7"
    by simp
  have v: "7 \<in> event_loop_objects example_store"
    by (simp add: example_store_def)
  have d: "set (requests \<lparr>requests = [10, 11], event_loop = Some 7\<rparr>)
             \<subseteq> dom (request_objects example_store)"
    by (simp add: example_store_def)
  from invalidate_request_deletes_under_mutex [OF r l v d] r v d show ?thesis
    by simp
qed

section \<open>Properties of the per-thread event loop pointer\<close>

lemma set_calls_live: "live_event_loops (set_calls calls tls) = live_event_loops tls"
  by (induction calls arbitrary: tls) (simp_all add: set_event_loop_for_thread_def split: prod.splits)

lemma set_calls_other_thread:
  "self \<notin> fst ` set calls \<Longrightarrow>
   thread_event_loop (set_calls calls tls) self = thread_event_loop tls self"
  by (induction calls arbitrary: tls)
    (auto simp: set_event_loop_for_thread_def split: prod.splits)

text \<open>
  Claim C7. A thread that has not called \<open>set_event_loop_for_thread\<close>, whatever the
  other threads have set, gets the null pointer from \<open>get_event_loop_for_thread\<close>;
  after it has set \<open>X\<close> it gets \<open>X\<close>; after it has then set \<open>Y\<close> it gets \<open>Y\<close>, and
  not \<open>X\<close> when the two differ. No call of \<open>set_event_loop_for_thread\<close> and no
  history of such calls changes the set of allocated event loops, and neither does the
  notifier \<open>do_not_delete_the_loop_pointer\<close> when a thread exits.
\<close>

theorem thread_event_loop_get_set:
  "(self \<notin> fst ` set calls \<longrightarrow>
      get_event_loop_for_thread self (set_calls calls (initial_thread_local_store live)) = None)
   \<and> get_event_loop_for_thread self (set_event_loop_for_thread self X tls) = X
   \<and> get_event_loop_for_thread self
       (set_event_loop_for_thread self Y (set_event_loop_for_thread self X tls)) = Y
   \<and> (X \<noteq> Y \<longrightarrow>
       get_event_loop_for_thread self
         (set_event_loop_for_thread self Y (set_event_loop_for_thread self X tls)) \<noteq> X)
   \<and> live_event_loops (set_event_loop_for_thread self X tls) = live_event_loops tls
   \<and> live_event_loops (set_calls calls tls) = live_event_loops tls
   \<and> live_event_loops (thread_exit self tls) = live_event_loops tls"
  by (simp add: get_event_loop_for_thread_def set_calls_other_thread set_calls_live
      initial_thread_local_store_def set_event_loop_for_thread_def thread_exit_def
      do_not_delete_the_loop_pointer_def split: option.splits)

theorem thread_event_loop_get_set_witness:
  "(1::nat) \<notin> fst ` set [(2, Some 50)]
   \<and> Some (50::nat) \<noteq> Some 60
   \<and> get_event_loop_for_thread 1
       (set_calls [(2, Some 50)] (initial_thread_local_store {50, 60})) = None
   \<and> get_event_loop_for_thread 1
       (set_event_loop_for_thread 1 (Some 60)
          (set_event_loop_for_thread 1 (Some 50) (initial_thread_local_store {50, 60})))
       = Some 60
   \<and> get_event_loop_for_thread 1
       (set_event_loop_for_thread 1 (Some 60)
          (set_event_loop_for_thread 1 (Some 50) (initial_thread_local_store {50, 60})))
       \<noteq> Some 50
   \<and> live_event_loops
       (set_event_loop_for_thread 1 (Some 60)
          (set_event_loop_for_thread 1 (Some 50) (initial_thread_local_store {50, 60})))
       = {50, 60}"
proof -
  have h1: "(1::nat) \<notin> fst ` set [(2, Some (50::nat))]"
    by simp
  have h2: "Some (50::nat) \<noteq> Some 60"
    by simp
  note inst = thread_event_loop_get_set
    [of 1 "[(2, Some 50)]" "{50, 60}" "Some 50"
      "initial_thread_local_store {50, 60}" "Some 60"]
  from inst h1 h2 show ?thesis
    by (simp add: set_event_loop_for_thread_def initial_thread_local_store_def)
qed

section \<open>Properties of the suppliers and the table of request buffers\<close>

subsection \<open>Assignment to the table\<close>

lemma map_of_map_subscript_assign:
  "map_of (map_subscript_assign key v entries) = (map_of entries)(key \<mapsto> v)"
  by (induction entries) (auto simp: fun_eq_iff)

lemma keys_map_subscript_assign:
  "fst ` set (map_subscript_assign key v entries) = insert key (fst ` set entries)"
  by (induction entries) auto

lemma ascending_keys_map_subscript_assign:
  "ascending_keys entries \<Longrightarrow> ascending_keys (map_subscript_assign key v entries)"
proof (induction entries)
  case Nil
  then show ?case by (simp add: ascending_keys_def)
next
  case (Cons entry entries)
  have tl: "ascending_keys entries"
    using Cons.prems by (simp add: ascending_keys_def)
  have above: "\<forall>k \<in> fst ` set entries. fst entry < k"
    using Cons.prems by (simp add: ascending_keys_def)
  show ?case
  proof (cases "fst entry = key")
    case True
    then show ?thesis using Cons.prems by (simp add: ascending_keys_def)
  next
    case False
    show ?thesis
    proof (cases "key < fst entry")
      case True
      then show ?thesis
        using Cons.prems False by (auto simp: ascending_keys_def)
    next
      case ge: False
      then have "fst entry < key"
        using False by simp
      then have "\<forall>k \<in> fst ` set (map_subscript_assign key v entries). fst entry < k"
        using above by (simp add: keys_map_subscript_assign)
      then show ?thesis
        using Cons.IH [OF tl] False ge by (simp add: ascending_keys_def)
    qed
  qed
qed




subsection \<open>One iteration of the loop of \<open>pre_register\<close>\<close>

lemma pre_register_supplier_skipped:
  "\<not> served e trs \<Longrightarrow> pre_register_supplier e n self trs s = s"
  by (auto simp: pre_register_supplier_def served_def split: option.splits)

lemma pre_register_supplier_served:
  "factory trs = Some f \<Longrightarrow> name trs \<noteq> e \<Longrightarrow>
   pre_register_supplier e n self trs s =
     s\<lparr>thread_buffer_requests :=
         map_subscript_assign (e @ ''/'' @ name trs)
           \<lparr>emitting_thread = self, target_thread_name = name trs,
            request_buffer = fst (f n (world s))\<rparr>
           (thread_buffer_requests s),
       world := snd (f n (world s)),
       reg_events := reg_events s @ [TableAssign (e @ ''/'' @ name trs)]\<rparr>"
  by (auto simp: pre_register_supplier_def Let_def split: prod.splits)

lemma served_cases [case_names skipped served]:
  "(\<not> served e trs \<Longrightarrow> P) \<Longrightarrow>
   (\<And>f. factory trs = Some f \<Longrightarrow> name trs \<noteq> e \<Longrightarrow> served e trs \<Longrightarrow> P) \<Longrightarrow> P"
  by (cases "factory trs"; cases "name trs = e") (auto simp: served_def)

lemma pre_register_supplier_suppliers:
  "request_buffer_suppliers (pre_register_supplier e n self trs s) = request_buffer_suppliers s"
  by (cases e trs rule: served_cases)
    (simp_all add: pre_register_supplier_skipped pre_register_supplier_served)

lemma pre_register_supplier_ascending:
  "ascending_keys (thread_buffer_requests s) \<Longrightarrow>
   ascending_keys (thread_buffer_requests (pre_register_supplier e n self trs s))"
  by (cases e trs rule: served_cases)
    (simp_all add: pre_register_supplier_skipped pre_register_supplier_served
      ascending_keys_map_subscript_assign)

lemma pre_register_supplier_events:
  "reg_events (pre_register_supplier e n self trs s) =
   reg_events s @ (if served e trs then [TableAssign (e @ ''/'' @ name trs)] else [])"
  by (cases e trs rule: served_cases)
    (simp_all add: pre_register_supplier_skipped pre_register_supplier_served)

lemma pre_register_supplier_with_suppliers:
  "pre_register_supplier e n self trs (s\<lparr>request_buffer_suppliers := sups\<rparr>) =
   (pre_register_supplier e n self trs s)\<lparr>request_buffer_suppliers := sups\<rparr>"
  by (cases e trs rule: served_cases)
    (simp_all add: pre_register_supplier_skipped pre_register_supplier_served)



lemma pre_register_supplier_cong:
  assumes "thread_buffer_requests s = thread_buffer_requests s'" and "world s = world s'"
  shows "thread_buffer_requests (pre_register_supplier e n self trs s) =
         thread_buffer_requests (pre_register_supplier e n self trs s')
       \<and> world (pre_register_supplier e n self trs s) =
         world (pre_register_supplier e n self trs s')"
  using assms
  by (cases e trs rule: served_cases)
    (simp_all add: pre_register_supplier_skipped pre_register_supplier_served)



subsection \<open>The loop and \<open>pre_register\<close>\<close>

lemma pre_register_suppliers_suppliers:
  "request_buffer_suppliers (pre_register_suppliers e n self trss s) = request_buffer_suppliers s"
  by (induction trss arbitrary: s) (simp_all add: pre_register_supplier_suppliers)

lemma pre_register_suppliers_filter:
  "pre_register_suppliers e n self (filter (served e) trss) s =
   pre_register_suppliers e n self trss s"
  by (induction trss arbitrary: s) (simp_all add: pre_register_supplier_skipped)

lemma pre_register_suppliers_events:
  "reg_events (pre_register_suppliers e n self trss s) =
   reg_events s @ map (\<lambda>trs. TableAssign (e @ ''/'' @ name trs)) (filter (served e) trss)"
  by (induction trss arbitrary: s) (simp_all add: pre_register_supplier_events)

lemma pre_register_suppliers_ascending:
  "ascending_keys (thread_buffer_requests s) \<Longrightarrow>
   ascending_keys (thread_buffer_requests (pre_register_suppliers e n self trss s))"
  by (induction trss arbitrary: s) (simp_all add: pre_register_supplier_ascending)

lemma pre_register_events_eq:
  "pre_register_events e n self s =
     [Acquire ReaderLock]
     @ map (\<lambda>trs. TableAssign (e @ ''/'' @ name trs))
         (filter (served e) (request_buffer_suppliers s))
     @ [Release ReaderLock]"
  by (simp add: pre_register_events_def pre_register_def Let_def pre_register_suppliers_events)

lemma pre_register_suppliers_with_suppliers:
  "pre_register_suppliers e n self trss (s\<lparr>request_buffer_suppliers := sups\<rparr>) =
   (pre_register_suppliers e n self trss s)\<lparr>request_buffer_suppliers := sups\<rparr>"
  by (induction trss arbitrary: s) (simp_all add: pre_register_supplier_with_suppliers)


lemma pre_register_suppliers_cong:
  "thread_buffer_requests s = thread_buffer_requests s' \<Longrightarrow> world s = world s' \<Longrightarrow>
   thread_buffer_requests (pre_register_suppliers e n self trss s) =
   thread_buffer_requests (pre_register_suppliers e n self trss s')
   \<and> world (pre_register_suppliers e n self trss s) =
     world (pre_register_suppliers e n self trss s')"
proof (induction trss arbitrary: s s')
  case Nil
  then show ?case by simp
next
  case (Cons trs trss)
  let ?a = "pre_register_supplier e n self trs s"
  let ?b = "pre_register_supplier e n self trs s'"
  from pre_register_supplier_cong [OF Cons.prems, of e n self trs]
  have "thread_buffer_requests ?a = thread_buffer_requests ?b" and "world ?a = world ?b"
    by blast+
  from Cons.IH [OF this] show ?case
    by simp
qed

lemma pre_register_table:
  "thread_buffer_requests (pre_register e n self s) =
   thread_buffer_requests (pre_register_suppliers e n self (request_buffer_suppliers s) s)"
proof -
  let ?s1 = "s\<lparr>reg_events := reg_events s @ [Acquire ReaderLock]\<rparr>"
  have "thread_buffer_requests ?s1 = thread_buffer_requests s" and "world ?s1 = world s"
    by simp_all
  from pre_register_suppliers_cong [OF this, of e n self "request_buffer_suppliers s"]
  have "thread_buffer_requests (pre_register_suppliers e n self (request_buffer_suppliers s) ?s1)
        = thread_buffer_requests (pre_register_suppliers e n self (request_buffer_suppliers s) s)"
    by blast
  then show ?thesis
    by (simp add: pre_register_def Let_def)
qed


lemma pre_register_ascending:
  "ascending_keys (thread_buffer_requests s) \<Longrightarrow>
   ascending_keys (thread_buffer_requests (pre_register e n self s))"
  by (simp add: pre_register_table pre_register_suppliers_ascending)






lemma pre_register_filtered:
  "pre_register e n self s =
   (pre_register e n self
      (s\<lparr>request_buffer_suppliers := filter (served e) (request_buffer_suppliers s)\<rparr>))
     \<lparr>request_buffer_suppliers := request_buffer_suppliers s\<rparr>"
proof -
  let ?sups = "request_buffer_suppliers s"
  let ?s0 = "s\<lparr>reg_events := reg_events s @ [Acquire ReaderLock]\<rparr>"
  let ?loop = "pre_register_suppliers e n self ?sups ?s0"
  have start: "s\<lparr>request_buffer_suppliers := filter (served e) ?sups,
                 reg_events := reg_events s @ [Acquire ReaderLock]\<rparr>
               = ?s0\<lparr>request_buffer_suppliers := filter (served e) ?sups\<rparr>"
    by simp
  have "pre_register e n self (s\<lparr>request_buffer_suppliers := filter (served e) ?sups\<rparr>)
        = (let s2 = ?loop\<lparr>request_buffer_suppliers := filter (served e) ?sups\<rparr>
           in s2\<lparr>reg_events := reg_events s2 @ [Release ReaderLock]\<rparr>)"
    unfolding pre_register_def Let_def
    by (simp add: start pre_register_suppliers_with_suppliers pre_register_suppliers_filter
        del: pre_register_suppliers.simps)
  moreover have "request_buffer_suppliers ?loop = ?sups"
    by (simp add: pre_register_suppliers_suppliers)
  ultimately show ?thesis
    by (simp add: pre_register_def Let_def)
qed

lemma assigned_keys_pre_register_events:
  "assigned_keys (pre_register_events e n self s) =
     map (\<lambda>trs. e @ ''/'' @ name trs) (filter (served e) (request_buffer_suppliers s))"
proof -
  have "assigned_keys (map (\<lambda>trs. TableAssign (e @ ''/'' @ name trs)) trss @ [Release ReaderLock]) =
          map (\<lambda>trs. e @ ''/'' @ name trs) trss" for trss :: "'a RequestBufferSupplier list"
    by (induction trss) simp_all
  then show ?thesis
    by (simp add: pre_register_events_eq)
qed

lemma example_registry_suppliers:
  "request_buffer_suppliers example_registry =
     [\<lparr>name = ''ui'', factory = Some ui_factory\<rparr>,
      \<lparr>name = ''workerA'', factory = Some worker_factory\<rparr>,
      \<lparr>name = ''audio'', factory = None\<rparr>]"
  by (simp add: example_registry_def register_request_buffer_factory_def initial_registry_def
      Let_def)

lemma example_registry_fields:
  "thread_buffer_requests example_registry = []" "world example_registry = 0"
  by (simp_all add: example_registry_def register_request_buffer_factory_def
      initial_registry_def Let_def)

lemma collect_request_buffers_eq:
  "collect_request_buffers target_thread entries ret =
     ret @ map snd (filter (\<lambda>x. target_thread_name (snd x) = target_thread) entries)"
  by (induction entries arbitrary: ret) simp_all

subsection \<open>Tables written for emitting threads without a slash in their names\<close>

























subsection \<open>The claims about the suppliers and the table\<close>

text \<open>
  Claim C3. \<open>pre_register\<close> assigns to the table exactly once for each supplier that
  has a factory and whose name differs from the name of the emitting thread, in the
  order of the suppliers, under the key made of the name of the emitting thread, a
  slash and the name of the supplier; the suppliers without factory and those named
  like the emitting thread are skipped, that is the call does what it does when they
  are not in the list. With the three suppliers "ui" (with a factory), "workerA"
  (with a factory) and "audio" (without), \<open>pre_register("workerA", 64)\<close> assigns once,
  under "workerA/ui", the mapping of the calling thread for "ui" with the buffer that
  the factory of "ui" returns for 64; the entries under "workerA/workerA" and
  "workerA/audio" are as before, and a table that was empty holds this one entry.
\<close>

theorem pre_register_skips_suppliers:
  "assigned_keys (pre_register_events e n self s) =
     map (\<lambda>trs. e @ ''/'' @ name trs) (filter (served e) (request_buffer_suppliers s))
   \<and> pre_register e n self s =
       (pre_register e n self
          (s\<lparr>request_buffer_suppliers := filter (served e) (request_buffer_suppliers s)\<rparr>))
         \<lparr>request_buffer_suppliers := request_buffer_suppliers s\<rparr>
   \<and> (request_buffer_suppliers s =
         [\<lparr>name = ''ui'', factory = Some fu\<rparr>, \<lparr>name = ''workerA'', factory = Some fw\<rparr>,
          \<lparr>name = ''audio'', factory = None\<rparr>] \<longrightarrow>
       assigned_keys (pre_register_events ''workerA'' 64 self s) = [''workerA/ui'']
       \<and> thread_buffer_requests (pre_register ''workerA'' 64 self s) =
           map_subscript_assign ''workerA/ui''
             \<lparr>emitting_thread = self, target_thread_name = ''ui'',
              request_buffer = fst (fu 64 (world s))\<rparr>
             (thread_buffer_requests s)
       \<and> map_of (thread_buffer_requests (pre_register ''workerA'' 64 self s)) ''workerA/workerA''
           = map_of (thread_buffer_requests s) ''workerA/workerA''
       \<and> map_of (thread_buffer_requests (pre_register ''workerA'' 64 self s)) ''workerA/audio''
           = map_of (thread_buffer_requests s) ''workerA/audio''
       \<and> (thread_buffer_requests s = [] \<longrightarrow>
            thread_buffer_requests (pre_register ''workerA'' 64 self s) =
              [(''workerA/ui'',
                \<lparr>emitting_thread = self, target_thread_name = ''ui'',
                 request_buffer = fst (fu 64 (world s))\<rparr>)]))"
proof (intro conjI impI)
  show "assigned_keys (pre_register_events e n self s) =
     map (\<lambda>trs. e @ ''/'' @ name trs) (filter (served e) (request_buffer_suppliers s))"
    by (rule assigned_keys_pre_register_events)
  show "pre_register e n self s =
       (pre_register e n self
          (s\<lparr>request_buffer_suppliers := filter (served e) (request_buffer_suppliers s)\<rparr>))
         \<lparr>request_buffer_suppliers := request_buffer_suppliers s\<rparr>"
    by (rule pre_register_filtered)
next
  assume sups: "request_buffer_suppliers s =
         [\<lparr>name = ''ui'', factory = Some fu\<rparr>, \<lparr>name = ''workerA'', factory = Some fw\<rparr>,
          \<lparr>name = ''audio'', factory = None\<rparr>]"
  show "assigned_keys (pre_register_events ''workerA'' 64 self s) = [''workerA/ui'']"
    by (simp add: assigned_keys_pre_register_events sups served_def)
  show tbl: "thread_buffer_requests (pre_register ''workerA'' 64 self s) =
           map_subscript_assign ''workerA/ui''
             \<lparr>emitting_thread = self, target_thread_name = ''ui'',
              request_buffer = fst (fu 64 (world s))\<rparr>
             (thread_buffer_requests s)"
    by (simp add: pre_register_def Let_def sups pre_register_supplier_def split: prod.splits)
  show "map_of (thread_buffer_requests (pre_register ''workerA'' 64 self s)) ''workerA/workerA''
           = map_of (thread_buffer_requests s) ''workerA/workerA''"
    by (simp add: tbl map_of_map_subscript_assign)
  show "map_of (thread_buffer_requests (pre_register ''workerA'' 64 self s)) ''workerA/audio''
           = map_of (thread_buffer_requests s) ''workerA/audio''"
    by (simp add: tbl map_of_map_subscript_assign)
  show "thread_buffer_requests (pre_register ''workerA'' 64 self s) =
              [(''workerA/ui'',
                \<lparr>emitting_thread = self, target_thread_name = ''ui'',
                 request_buffer = fst (fu 64 (world s))\<rparr>)]"
    if "thread_buffer_requests s = []"
    using that by (simp add: tbl)
qed

theorem pre_register_skips_suppliers_witness:
  "request_buffer_suppliers example_registry =
     [\<lparr>name = ''ui'', factory = Some ui_factory\<rparr>,
      \<lparr>name = ''workerA'', factory = Some worker_factory\<rparr>,
      \<lparr>name = ''audio'', factory = None\<rparr>]
   \<and> thread_buffer_requests example_registry = []
   \<and> assigned_keys (pre_register_events ''workerA'' 64 5 example_registry) = [''workerA/ui'']
   \<and> thread_buffer_requests (pre_register ''workerA'' 64 5 example_registry) =
       [(''workerA/ui'',
         \<lparr>emitting_thread = 5, target_thread_name = ''ui'', request_buffer = 100\<rparr>)]"
proof -
  note sups = example_registry_suppliers
  note concrete = pre_register_skips_suppliers
    [of _ _ 5 example_registry ui_factory worker_factory,
      THEN conjunct2, THEN conjunct2, rule_format, OF sups]
  from concrete show ?thesis
    by (simp add: sups example_registry_fields ui_factory_def)
qed




text \<open>
  Claim C6 says that \<open>pre_register\<close> assigns to the table while it holds the writer
  lock. With the suppliers "ui", "workerA" and "audio" of \<open>example_registry\<close>,
  \<open>pre_register("workerA", 64)\<close> called by thread 5 takes a \<open>ReaderLock\<close>, assigns the
  entry "workerA/ui" and releases the lock: the assignment happens while the thread
  holds the reader lock, not the writer lock.
\<close>

theorem pre_register_assigns_under_reader_lock:
  "pre_register_events ''workerA'' 64 5 example_registry =
     [Acquire ReaderLock, TableAssign ''workerA/ui'', Release ReaderLock]
   \<and> \<not> assigns_while_holding WriterLock None
         (pre_register_events ''workerA'' 64 5 example_registry)
   \<and> assigns_while_holding ReaderLock None
         (pre_register_events ''workerA'' 64 5 example_registry)"
  by (simp add: pre_register_events_eq example_registry_def register_request_buffer_factory_def
      initial_registry_def served_def Let_def)

text \<open>
  Claim C8. \<open>get_request_buffers_for_target_thread\<close> returns the mappings of the
  entries of the table whose \<open>target_thread_name\<close> is the given name, one for each
  such entry and in the order of the table, and no other; the table, the suppliers and
  the state of the factories are as before.
\<close>

theorem get_request_buffers_for_target_thread_result:
  "fst (get_request_buffers_for_target_thread target_thread s) =
     map snd (filter (\<lambda>x. target_thread_name (snd x) = target_thread) (thread_buffer_requests s))
   \<and> mset (fst (get_request_buffers_for_target_thread target_thread s)) =
     image_mset snd
       (filter_mset (\<lambda>x. target_thread_name (snd x) = target_thread)
          (mset (thread_buffer_requests s)))
   \<and> thread_buffer_requests (snd (get_request_buffers_for_target_thread target_thread s)) =
     thread_buffer_requests s
   \<and> request_buffer_suppliers (snd (get_request_buffers_for_target_thread target_thread s)) =
     request_buffer_suppliers s
   \<and> world (snd (get_request_buffers_for_target_thread target_thread s)) = world s"
  by (simp add: get_request_buffers_for_target_thread_def Let_def collect_request_buffers_eq)

text \<open>
  Claim C9. \<open>register_request_buffer_factory\<close> returns for every name and every
  factory pointer, also for an empty name, a null factory or a name that is already
  registered: it appends one supplier with this name and this factory at the end of the
  list of suppliers and leaves the table alone.
\<close>

theorem register_request_buffer_factory_appends:
  "request_buffer_suppliers (register_request_buffer_factory nm f s) =
     request_buffer_suppliers s @ [\<lparr>name = nm, factory = f\<rparr>]
   \<and> thread_buffer_requests (register_request_buffer_factory nm f s) = thread_buffer_requests s
   \<and> world (register_request_buffer_factory nm f s) = world s"
  by (simp add: register_request_buffer_factory_def Let_def)

text \<open>
  Claim C10. \<open>pre_register\<close> leaves the list of suppliers as it is: the same
  suppliers, with the same names and factories, in the same order.
\<close>

theorem pre_register_keeps_suppliers:
  "request_buffer_suppliers (pre_register e n self s) = request_buffer_suppliers s"
  by (simp add: pre_register_def Let_def pre_register_suppliers_suppliers)

end
